theory Spec2Isabelle
  imports Main "HOL-Library.Sublist"
begin

section \<open>The example program: \<^verbatim>\<open>Sources/fm-c-example/main.c\<close>\<close>

subsection \<open>Data\<close>

text \<open>
  \<^verbatim>\<open>typedef struct { size_t lastLength; bool isResponding; } GenerationContext;\<close>

  The program never does arithmetic on a \<^verbatim>\<open>size_t\<close>: \<^verbatim>\<open>lastLength\<close> is only assigned and
  used as an index, so it is a natural number here.
\<close>

record GenerationContext =
  lastLength :: nat
  isResponding :: bool

text \<open>
  One call of a \<^verbatim>\<open>FMLanguageModelSessionResponseCallback\<close>, without its \<^verbatim>\<open>userInfo\<close>:
  \<^verbatim>\<open>(int status, const char *_Nullable content, size_t length)\<close>.
  A null \<^verbatim>\<open>content\<close> is \<open>None\<close>; a non-null one is the C string it points to, that is the
  bytes before the terminating NUL (the terminator itself is not stored).
\<close>

record invocation =
  inv_status :: int
  inv_content :: "string option"
  inv_length :: nat

text \<open>
  Reading a C string through \<^verbatim>\<open>&content[i]\<close>: index \<open>length s\<close> is the terminator, so the
  read yields the bytes from \<open>i\<close> on when \<open>i \<le> length s\<close>. A larger index is past the
  string's storage; C leaves that read undefined, the model reports it.
\<close>

datatype error = OutOfBoundsRead

definition c_string_at :: "string \<Rightarrow> nat \<Rightarrow> error + string" where
  "c_string_at s i = (if i \<le> length s then Inr (drop i s) else Inl OutOfBoundsRead)"

text \<open>
  \<^verbatim>\<open>printf\<close>, as far as the example uses it: ordinary bytes are copied, \<^verbatim>\<open>%s\<close> inserts the next
  string argument, \<^verbatim>\<open>%%\<close> is a percent sign. The result is the text written to stdout.
\<close>

fun printf :: "string \<Rightarrow> string list \<Rightarrow> string" where
  "printf [] args = []"
| "printf [c] args = [c]"
| "printf (c # d # fmt) args =
     (if c = CHR ''%'' \<and> d = CHR ''s'' then
        (case args of [] \<Rightarrow> printf fmt [] | a # as \<Rightarrow> a @ printf fmt as)
      else if c = CHR ''%'' \<and> d = CHR ''%'' then CHR ''%'' # printf fmt args
      else c # printf (d # fmt) args)"

text \<open>
  The two literal format strings of \<^verbatim>\<open>responseCallback\<close>.
  \<^verbatim>\<open>"Failed to respond (error: \(status))"\<close>: the source writes \<^verbatim>\<open>\(\<close>, which is no C escape
  sequence; clang and gcc warn and take it for the parenthesis, so the bytes of the literal
  are the ones below. \<^verbatim>\<open>"\n...\n"\<close> with the check mark U+2705 between the newlines: its
  UTF-8 encoding is the three bytes E2 9C 85.
\<close>

definition failure_format :: string where
  "failure_format = ''Failed to respond (error: (status))''"

definition end_format :: string where
  "end_format = [CHR 0x0A, CHR 0xE2, CHR 0x9C, CHR 0x85, CHR 0x0A]"

subsection \<open>\<^verbatim>\<open>responseCallback\<close>\<close>

text \<open>
  \<^verbatim>\<open>void responseCallback(int status, const char *content, size_t length, void *userInfo)\<close>

  \<^verbatim>\<open>userInfo\<close> is the \<^verbatim>\<open>GenerationContext\<close> the callback updates; the model takes it and
  returns it updated, with the text this call wrote to stdout. \<^verbatim>\<open>fflush\<close> does not change
  what is written.
\<close>

definition responseCallback ::
  "int \<Rightarrow> string option \<Rightarrow> nat \<Rightarrow> GenerationContext \<Rightarrow> error + (GenerationContext \<times> string)" where
  "responseCallback status content len context =
     (if status \<noteq> 0 then
        Inr (context\<lparr>isResponding := False\<rparr>, printf failure_format [])
      else
        (case content of
           Some s \<Rightarrow>
             (case c_string_at s (lastLength context) of
                Inl e \<Rightarrow> Inl e
              | Inr unseen \<Rightarrow> Inr (context\<lparr>lastLength := len\<rparr>, printf ''%s'' [unseen]))
         | None \<Rightarrow> Inr (context\<lparr>isResponding := False\<rparr>, printf end_format [])))"

text \<open>
  The engine calls the callback once per invocation, in order, on the same context. The
  result lists what each call printed; stdout holds their concatenation. An undefined read
  ends the run.
\<close>

fun run_callbacks ::
  "GenerationContext \<Rightarrow> invocation list \<Rightarrow> error + (GenerationContext \<times> string list)" where
  "run_callbacks ctx [] = Inr (ctx, [])"
| "run_callbacks ctx (i # rest) =
     (case responseCallback (inv_status i) (inv_content i) (inv_length i) ctx of
        Inl e \<Rightarrow> Inl e
      | Inr (ctx', p) \<Rightarrow>
          (case run_callbacks ctx' rest of
             Inl e \<Rightarrow> Inl e
           | Inr (ctx'', ps) \<Rightarrow> Inr (ctx'', p # ps)))"

text \<open>
  \<^verbatim>\<open>main\<close>, lines 43 to 45: \<^verbatim>\<open>context.lastLength = 0; context.isResponding = true;\<close>
\<close>

definition main_context :: GenerationContext where
  "main_context = \<lparr>lastLength = 0, isResponding = True\<rparr>"

subsection \<open>Streams as the callback sees them\<close>

text \<open>A terminal invocation: nonzero status, or null content.\<close>

definition is_terminal :: "invocation \<Rightarrow> bool" where
  "is_terminal i = (inv_status i \<noteq> 0 \<or> inv_content i = None)"

text \<open>A snapshot: status 0 and non-null content.\<close>

definition is_snapshot :: "invocation \<Rightarrow> bool" where
  "is_snapshot i = (inv_status i = 0 \<and> inv_content i \<noteq> None)"

text \<open>
  Every invocation has status 0; every non-null snapshot extends the previous non-null one
  (\<open>prev\<close>, the empty text before the first) and reports its own length.
\<close>

fun snapshots_ok :: "string \<Rightarrow> invocation list \<Rightarrow> bool" where
  "snapshots_ok prev [] = True"
| "snapshots_ok prev (i # rest) =
     (inv_status i = 0 \<and>
      (case inv_content i of
         None \<Rightarrow> snapshots_ok prev rest
       | Some s \<Rightarrow> prefix prev s \<and> inv_length i = length s \<and> snapshots_ok s rest))"

text \<open>The last non-null content of a sequence of invocations (\<open>prev\<close> when there is none).\<close>

fun last_snapshot :: "string \<Rightarrow> invocation list \<Rightarrow> string" where
  "last_snapshot prev [] = prev"
| "last_snapshot prev (i # rest) =
     (case inv_content i of
        None \<Rightarrow> last_snapshot prev rest
      | Some s \<Rightarrow> last_snapshot s rest)"

text \<open>What the invocations with non-null content printed, given what each invocation printed.\<close>

fun printed_by_snapshots :: "invocation list \<Rightarrow> string list \<Rightarrow> string" where
  "printed_by_snapshots (i # rest) (p # ps) =
     (case inv_content i of
        None \<Rightarrow> printed_by_snapshots rest ps
      | Some s \<Rightarrow> p @ printed_by_snapshots rest ps)"
| "printed_by_snapshots _ _ = []"

text \<open>Every snapshot reports the length of its content.\<close>

definition lengths_reported :: "invocation list \<Rightarrow> bool" where
  "lengths_reported invs =
     (\<forall>i \<in> set invs. is_snapshot i \<longrightarrow> inv_content i \<noteq> None \<and> inv_length i = length (the (inv_content i)))"

section \<open>The public interface: \<^verbatim>\<open>FoundationModels.h\<close>\<close>

subsection \<open>Guide operations of a schema property\<close>

text \<open>
  The header declares one function per kind of validation guide (lines 67 to 74). A
  declaration is the function's name with its parameters in order, each a C type and a
  name.
\<close>

datatype c_type =
  FMGenerationSchemaPropertyRef
  | ConstCharPtr
  | ConstCharPtrArray
  | CInt
  | CDouble
  | CBool

type_synonym c_declaration = "string \<times> (c_type \<times> string) list"

datatype guide_kind =
  ChoiceEnumeration | ExactCount | Maximum | Minimum | MinItems | MaxItems | Range | RegexPattern

fun guide_declaration :: "guide_kind \<Rightarrow> c_declaration" where
  "guide_declaration ChoiceEnumeration =
     (''FMGenerationSchemaPropertyAddAnyOfGuide'',
      [(FMGenerationSchemaPropertyRef, ''property''), (ConstCharPtrArray, ''anyOf''),
       (CInt, ''choiceCount''), (CBool, ''wrapped'')])"
| "guide_declaration ExactCount =
     (''FMGenerationSchemaPropertyAddCountGuide'',
      [(FMGenerationSchemaPropertyRef, ''property''), (CInt, ''count''), (CBool, ''wrapped'')])"
| "guide_declaration Maximum =
     (''FMGenerationSchemaPropertyAddMaximumGuide'',
      [(FMGenerationSchemaPropertyRef, ''property''), (CDouble, ''maximum''), (CBool, ''wrapped'')])"
| "guide_declaration Minimum =
     (''FMGenerationSchemaPropertyAddMinimumGuide'',
      [(FMGenerationSchemaPropertyRef, ''property''), (CDouble, ''minimum''), (CBool, ''wrapped'')])"
| "guide_declaration MinItems =
     (''FMGenerationSchemaPropertyAddMinItemsGuide'',
      [(FMGenerationSchemaPropertyRef, ''property''), (CInt, ''minItems'')])"
| "guide_declaration MaxItems =
     (''FMGenerationSchemaPropertyAddMaxItemsGuide'',
      [(FMGenerationSchemaPropertyRef, ''property''), (CInt, ''maxItems'')])"
| "guide_declaration Range =
     (''FMGenerationSchemaPropertyAddRangeGuide'',
      [(FMGenerationSchemaPropertyRef, ''property''), (CDouble, ''minValue''),
       (CDouble, ''maxValue''), (CBool, ''wrapped'')])"
| "guide_declaration RegexPattern =
     (''FMGenerationSchemaPropertyAddRegex'',
      [(FMGenerationSchemaPropertyRef, ''property''), (ConstCharPtr, ''pattern''),
       (CBool, ''wrapped'')])"

text \<open>The operation takes a \<^verbatim>\<open>bool wrapped\<close> parameter.\<close>

definition accepts_wrapped :: "guide_kind \<Rightarrow> bool" where
  "accepts_wrapped k = ((CBool, ''wrapped'') \<in> set (snd (guide_declaration k)))"

subsection \<open>Reasons of unavailability\<close>

text \<open>
  \<^verbatim>\<open>typedef enum { ... } FMSystemLanguageModelUnavailableReason;\<close> (lines 27 to 33), with the
  value the header gives each enumerator.
\<close>

datatype FMSystemLanguageModelUnavailableReason =
  AppleIntelligenceNotEnabled
  | DeviceNotEligible
  | ModelNotReady
  | Unknown

fun reason_value :: "FMSystemLanguageModelUnavailableReason \<Rightarrow> int" where
  "reason_value AppleIntelligenceNotEnabled = 0"
| "reason_value DeviceNotEligible = 1"
| "reason_value ModelNotReady = 2"
| "reason_value Unknown = 0xFF"

section \<open>The engine behind the interface\<close>

text \<open>
  The functions the header declares are implemented by the bridge, whose code is not among
  the sources: only their declarations and the example's calls are. What they do is taken
  from the specification, and each definition below quotes the sentences it follows.
\<close>

subsection \<open>Availability\<close>

text \<open>
  The model behind a \<^verbatim>\<open>FMSystemLanguageModelRef\<close> is available, or unavailable for one of the
  header's reasons.
\<close>

datatype availability = Available | Unavailable FMSystemLanguageModelUnavailableReason

text \<open>
  Modelled from the spec: the body of \<^verbatim>\<open>FMSystemLanguageModelIsAvailable\<close> (header, line 52)
  is missing. Section 4.1: "Availability queries (is-available) are synchronous,
  side-effect-free, and may populate an out-parameter reason code from a closed
  enumeration"; section 7: unavailability is "reported synchronously via an out-parameter
  reason, never an exception".

  The out-parameter \<^verbatim>\<open>unavailableReason\<close> is a nullable pointer to storage for an enum value:
  \<open>None\<close> is the null pointer, \<open>Some v\<close> storage that holds \<open>v\<close>. The call returns its
  result, the out-parameter after the call, and the model after the call.
\<close>

definition FMSystemLanguageModelIsAvailable ::
  "availability \<Rightarrow> int option \<Rightarrow> bool \<times> int option \<times> availability" where
  "FMSystemLanguageModelIsAvailable model unavailableReason =
     (case model of
        Available \<Rightarrow> (True, unavailableReason, model)
      | Unavailable r \<Rightarrow>
          (False, map_option (\<lambda>old. reason_value r) unavailableReason, model))"

subsection \<open>Ownership of references\<close>

text \<open>
  The object behind a reference: its ownership count, and how many times the engine has
  torn it down. It is alive while that number is zero; two would be a double free.
\<close>

record managed_object =
  ownership_count :: int
  teardowns :: nat

text \<open>
  Modelled from the spec: the functions that create an object and hand out its reference
  have no body in the sources. Section 3: "Every reference obtained by the caller must be
  explicitly released exactly once": the reference is handed out with a count of one.
\<close>

definition new_reference :: managed_object where
  "new_reference = \<lparr>ownership_count = 1, teardowns = 0\<rparr>"

text \<open>
  Modelled from the spec: the body of \<^verbatim>\<open>FMRetain\<close> (header, line 95) is missing.
  Section 4.1: "Retain increments a shared ownership count".
\<close>

definition FMRetain :: "managed_object \<Rightarrow> managed_object" where
  "FMRetain obj = obj\<lparr>ownership_count := ownership_count obj + 1\<rparr>"

text \<open>
  Modelled from the spec: the body of \<^verbatim>\<open>FMRelease\<close> (header, line 96) is missing.
  Section 4.1: "release decrements it and, at zero, triggers engine-side teardown."
\<close>

definition FMRelease :: "managed_object \<Rightarrow> managed_object" where
  "FMRelease obj =
     (let c = ownership_count obj - 1
      in obj\<lparr>ownership_count := c,
              teardowns := (if c = 0 then teardowns obj + 1 else teardowns obj)\<rparr>)"

subsection \<open>Single-shot requests and cancellation\<close>

text \<open>
  Section 3 of the spec: a task goes "running \<rightarrow> completed (terminal, callback fired with
  success/failure) or running \<rightarrow> cancelled (terminal, via explicit cancellation request)".
  A task records its phase and the callback invocations made for it so far. The engine
  finishes a request with the response text or with a failure status.
\<close>

datatype task_phase = Running | Completed | Cancelled

datatype outcome = Succeeded string | FailedWith int

record task =
  phase :: task_phase
  fired :: "invocation list"


text \<open>
  Modelled from the spec: the code that calls the callback of a single-shot request is
  missing. Section 4.3: "the callback is invoked exactly once, with a status code
  (0 = success, nonzero = failure reason) and, on success, the result payload; on failure
  the payload is absent."; section 4.2: the callback carries "a status code and the full
  response text (or null on failure)".
\<close>

fun completion_callback :: "outcome \<Rightarrow> invocation" where
  "completion_callback (Succeeded text) =
     \<lparr>inv_status = 0, inv_content = Some text, inv_length = length text\<rparr>"
| "completion_callback (FailedWith st) =
     \<lparr>inv_status = st, inv_content = None, inv_length = 0\<rparr>"

text \<open>
  Modelled from the spec: the body of \<^verbatim>\<open>FMLanguageModelSessionRespond\<close> (header, line 57) is
  missing. Section 4.2: it "starts one non-streaming asynchronous request: returns a
  TaskReference immediately". The task it returns is running and no callback has been made.
\<close>

definition FMLanguageModelSessionRespond :: "string \<Rightarrow> task" where
  "FMLanguageModelSessionRespond prompt = \<lparr>phase = Running, fired = []\<rparr>"

text \<open>
  Modelled from the spec: the engine's completion of a request is missing from the sources.
  Section 3: "running \<rightarrow> completed (terminal, callback fired with success/failure)"; a task
  that has reached a terminal phase stays as it is.
\<close>

definition engine_done :: "outcome \<Rightarrow> task \<Rightarrow> task" where
  "engine_done result t =
     (case phase t of
        Running \<Rightarrow> t\<lparr>phase := Completed, fired := fired t @ [completion_callback result]\<rparr>
      | Completed \<Rightarrow> t
      | Cancelled \<Rightarrow> t)"

text \<open>
  Modelled from the spec: the body of \<^verbatim>\<open>FMTaskCancel\<close> (header, line 93) is missing.
  Section 4.4: "a race between completion and cancellation must resolve to at most one
  terminal callback invocation. Cancellation is idempotent: cancelling an
  already-completed or already-cancelled task is a no-op, not an error." Section 9 leaves
  open "whether a cancelled task's callback is suppressed or still fires with a
  distinguished status": the model takes that policy as the parameter \<open>on_cancel\<close>, \<open>None\<close>
  for suppressed, \<open>Some st\<close> for a callback with status \<open>st\<close> and no payload. The function
  returns \<^verbatim>\<open>void\<close>: there is no error it could report.
\<close>

definition FMTaskCancel :: "int option \<Rightarrow> task \<Rightarrow> task" where
  "FMTaskCancel on_cancel t =
     (case phase t of
        Running \<Rightarrow>
          t\<lparr>phase := Cancelled,
            fired := fired t @
              (case on_cancel of
                 None \<Rightarrow> []
               | Some st \<Rightarrow> [\<lparr>inv_status = st, inv_content = None, inv_length = 0\<rparr>])\<rparr>
      | Completed \<Rightarrow> t
      | Cancelled \<Rightarrow> t)"

text \<open>
  The life of a task is a sequence of events: the engine finishes the request, or the
  caller asks for its cancellation, in any order and any number of times.
\<close>

datatype task_event = EngineDone outcome | CancelRequested

fun task_step :: "int option \<Rightarrow> task \<Rightarrow> task_event \<Rightarrow> task" where
  "task_step on_cancel t (EngineDone result) = engine_done result t"
| "task_step on_cancel t CancelRequested = FMTaskCancel on_cancel t"

definition task_run :: "int option \<Rightarrow> task \<Rightarrow> task_event list \<Rightarrow> task" where
  "task_run on_cancel t evs = foldl (task_step on_cancel) t evs"

subsection \<open>Streaming requests\<close>

text \<open>
  The engine's side of a stream is a sequence of events: the response grew by some text, it
  is complete, or it failed with a status.
\<close>

datatype stream_event = Grew string | Finished | Failed int

text \<open>
  Modelled from the spec: the body of \<^verbatim>\<open>FMLanguageModelSessionResponseStreamIterate\<close> (header,
  line 59) is missing. Section 4.3: "the callback may be invoked multiple times, each time
  with status 0 and the full content accumulated so far (not a delta) plus its length; the
  stream is terminated by exactly one final invocation with a null/absent content pointer,
  signaling end-of-stream, after which the callback must not fire again for that stream. A
  nonzero status at any point is terminal: no further invocations follow, and no
  end-of-stream marker is separately sent." Section 3: the snapshots "are monotonically
  growing prefixes of the same logical response"; section 8: "each successive snapshot has
  the previous one as a strict prefix".

  Iteration turns the engine's events into callback invocations: a snapshot of the text so
  far (\<open>acc\<close> and what was added) each time it has grown, one invocation with null content
  at the end, nothing after the stream has ended. A failure is delivered like the failure
  of a single-shot request, with its status and no payload.
\<close>

fun stream_deliver :: "string \<Rightarrow> stream_event list \<Rightarrow> invocation list" where
  "stream_deliver acc [] = []"
| "stream_deliver acc (Grew d # evs) =
     (if d = [] then stream_deliver acc evs
      else \<lparr>inv_status = 0, inv_content = Some (acc @ d), inv_length = length (acc @ d)\<rparr>
             # stream_deliver (acc @ d) evs)"
| "stream_deliver acc (Finished # evs) =
     [\<lparr>inv_status = 0, inv_content = None, inv_length = 0\<rparr>]"
| "stream_deliver acc (Failed st # evs) =
     [\<lparr>inv_status = st, inv_content = None, inv_length = 0\<rparr>]"

text \<open>
  Modelled from the spec: \<^verbatim>\<open>FMLanguageModelSessionResponseStreamIterate\<close> itself, for a stream
  whose engine goes through the events \<open>evs\<close>: the invocations of the callback, in order,
  starting from the empty response.
\<close>

definition FMLanguageModelSessionResponseStreamIterate :: "stream_event list \<Rightarrow> invocation list" where
  "FMLanguageModelSessionResponseStreamIterate evs = stream_deliver [] evs"

text \<open>The contents of the invocations that carry one, in order.\<close>

fun contents :: "invocation list \<Rightarrow> string list" where
  "contents [] = []"
| "contents (i # rest) =
     (case inv_content i of None \<Rightarrow> contents rest | Some s \<Rightarrow> s # contents rest)"

text \<open>The stream has ended: the engine completed or failed it.\<close>

fun ends_stream :: "stream_event \<Rightarrow> bool" where
  "ends_stream (Grew d) = False"
| "ends_stream Finished = True"
| "ends_stream (Failed st) = True"

section \<open>Properties of the example program\<close>

lemma printf_no_conversion: "CHR ''%'' \<notin> set fmt \<Longrightarrow> printf fmt args = fmt"
  by (induction fmt args rule: printf.induct) auto

lemma printf_failure_format: "printf failure_format args = failure_format"
  by (rule printf_no_conversion) (simp add: failure_format_def)

lemma printf_end_format: "printf end_format args = end_format"
  by (rule printf_no_conversion) (simp add: end_format_def)

subsection \<open>A failed response\<close>

text \<open>
  C10: when \<^verbatim>\<open>responseCallback\<close> is called with a nonzero status, it prints the fixed text
  \<^verbatim>\<open>Failed to respond (error: (status))\<close>, whatever the status is: the format string has no
  conversion specifier (no percent sign), so \<^verbatim>\<open>printf\<close> copies it unchanged and the number is
  never formatted. It sets \<^verbatim>\<open>isResponding\<close> to false, leaves \<^verbatim>\<open>lastLength\<close> as it was, and
  the result does not depend on \<^verbatim>\<open>content\<close> or \<^verbatim>\<open>length\<close>: the content is not read.
\<close>

theorem responseCallback_failure:
  assumes "status \<noteq> 0"
  shows "responseCallback status content len context =
           Inr (\<lparr>lastLength = lastLength context, isResponding = False\<rparr>,
                ''Failed to respond (error: (status))'')
         \<and> CHR ''%'' \<notin> set failure_format"
proof -
  have "printf failure_format [] = ''Failed to respond (error: (status))''"
    by (simp add: printf_failure_format) (simp add: failure_format_def)
  moreover have "context\<lparr>isResponding := False\<rparr> =
      \<lparr>lastLength = lastLength context, isResponding = False\<rparr>"
    by simp
  moreover have "CHR ''%'' \<notin> set failure_format"
    by (simp add: failure_format_def)
  ultimately show ?thesis
    using assms by (simp add: responseCallback_def)
qed

theorem responseCallback_failure_witness:
  "(7::int) \<noteq> 0 \<and>
   responseCallback 7 (Some ''abc'') 3 main_context =
     Inr (\<lparr>lastLength = 0, isResponding = False\<rparr>, ''Failed to respond (error: (status))'')"
  using responseCallback_failure [of 7 "Some ''abc''" 3 main_context]
  by (simp add: main_context_def)

subsection \<open>A stream of snapshots\<close>

lemma responseCallback_snapshot:
  "lastLength ctx \<le> length s \<Longrightarrow>
   responseCallback 0 (Some s) len ctx = Inr (ctx\<lparr>lastLength := len\<rparr>, drop (lastLength ctx) s)"
  by (simp add: responseCallback_def c_string_at_def)

lemma responseCallback_end:
  "responseCallback 0 None len ctx = Inr (ctx\<lparr>isResponding := False\<rparr>, end_format)"
  by (simp add: responseCallback_def printf_end_format)

text \<open>
  The run over a well-formed stream, from any point of it: \<open>prev\<close> is the last snapshot seen
  and the cursor is its length.
\<close>

lemma run_snapshots:
  "snapshots_ok prev invs \<Longrightarrow> lastLength ctx = length prev \<Longrightarrow>
   \<exists>ctx' ps. run_callbacks ctx invs = Inr (ctx', ps)
     \<and> length ps = length invs
     \<and> lastLength ctx' = length (last_snapshot prev invs)
     \<and> prev @ printed_by_snapshots invs ps = last_snapshot prev invs
     \<and> (\<forall>k<length invs. \<forall>s. inv_content (invs ! k) = Some s \<longrightarrow>
           ps ! k = drop (length (last_snapshot prev (take k invs))) s)
     \<and> (\<forall>k<length invs. inv_content (invs ! k) = None \<longrightarrow> ps ! k = end_format)"
proof (induction invs arbitrary: prev ctx)
  case Nil
  then show ?case by simp
next
  case (Cons i rest)
  show ?case
  proof (cases "inv_content i")
    case None
    from Cons.prems None have ok: "snapshots_ok prev rest" and st: "inv_status i = 0"
      by simp_all
    let ?c = "ctx\<lparr>isResponding := False\<rparr>"
    have "lastLength ?c = length prev" using Cons.prems by simp
    from Cons.IH [OF ok this] obtain ctx' ps where
      r: "run_callbacks ?c rest = Inr (ctx', ps)" and
      l: "length ps = length rest" and
      c: "lastLength ctx' = length (last_snapshot prev rest)" and
      o: "prev @ printed_by_snapshots rest ps = last_snapshot prev rest" and
      d: "\<forall>k<length rest. \<forall>s. inv_content (rest ! k) = Some s \<longrightarrow>
            ps ! k = drop (length (last_snapshot prev (take k rest))) s" and
      e: "\<forall>k<length rest. inv_content (rest ! k) = None \<longrightarrow> ps ! k = end_format"
      by blast
    have run: "run_callbacks ctx (i # rest) = Inr (ctx', end_format # ps)"
      using r st None by (simp add: responseCallback_end)
    have "\<forall>k<length (i # rest). inv_content ((i # rest) ! k) = None \<longrightarrow>
            (end_format # ps) ! k = end_format"
      using e by (auto simp: nth_Cons split: nat.splits)
    moreover have "\<forall>k<length (i # rest). \<forall>s. inv_content ((i # rest) ! k) = Some s \<longrightarrow>
            (end_format # ps) ! k = drop (length (last_snapshot prev (take k (i # rest)))) s"
      using d None by (auto simp: nth_Cons split: nat.splits)
    ultimately show ?thesis using run l c o None by simp
  next
    case (Some s)
    from Cons.prems Some have ok: "snapshots_ok s rest" and st: "inv_status i = 0"
      and pre: "prefix prev s" and len: "inv_length i = length s"
      by simp_all
    let ?c = "ctx\<lparr>lastLength := inv_length i\<rparr>"
    let ?p = "drop (lastLength ctx) s"
    have "lastLength ?c = length s" using len by simp
    from Cons.IH [OF ok this] obtain ctx' ps where
      r: "run_callbacks ?c rest = Inr (ctx', ps)" and
      l: "length ps = length rest" and
      c: "lastLength ctx' = length (last_snapshot s rest)" and
      o: "s @ printed_by_snapshots rest ps = last_snapshot s rest" and
      d: "\<forall>k<length rest. \<forall>t. inv_content (rest ! k) = Some t \<longrightarrow>
            ps ! k = drop (length (last_snapshot s (take k rest))) t" and
      e: "\<forall>k<length rest. inv_content (rest ! k) = None \<longrightarrow> ps ! k = end_format"
      by blast
    from pre have inb: "lastLength ctx \<le> length s"
      using Cons.prems(2) by (simp add: prefix_length_le)
    from pre have whole: "prev @ ?p = s"
      using Cons.prems(2) by (auto simp: prefix_def)
    have run: "run_callbacks ctx (i # rest) = Inr (ctx', ?p # ps)"
      using r st Some inb by (simp add: responseCallback_snapshot)
    have "\<forall>k<length (i # rest). inv_content ((i # rest) ! k) = None \<longrightarrow>
            (?p # ps) ! k = end_format"
      using e Some by (auto simp: nth_Cons split: nat.splits)
    moreover have "\<forall>k<length (i # rest). \<forall>t. inv_content ((i # rest) ! k) = Some t \<longrightarrow>
            (?p # ps) ! k = drop (length (last_snapshot prev (take k (i # rest)))) t"
      using d Some Cons.prems(2) by (auto simp: nth_Cons split: nat.splits)
    moreover have "prev @ printed_by_snapshots (i # rest) (?p # ps) = last_snapshot prev (i # rest)"
    proof -
      have "prev @ printed_by_snapshots (i # rest) (?p # ps)
            = (prev @ ?p) @ printed_by_snapshots rest ps"
        using Some by simp
      also have "\<dots> = last_snapshot s rest" using whole o by simp
      finally show ?thesis using Some by simp
    qed
    ultimately show ?thesis using run l c Some by simp
  qed
qed

lemma printed_by_snapshots_all:
  "length ps = length invs \<Longrightarrow> \<forall>i \<in> set invs. inv_content i \<noteq> None \<Longrightarrow>
   printed_by_snapshots invs ps = concat ps"
  by (induction invs ps rule: list_induct2') auto

lemma printed_by_snapshots_append:
  "length ps = length xs \<Longrightarrow>
   printed_by_snapshots (xs @ ys) (ps @ qs) = printed_by_snapshots xs ps @ printed_by_snapshots ys qs"
  by (induction xs ps rule: list_induct2') (auto split: option.splits)

text \<open>
  The whole output of a sequence that is only snapshots, and of one that is snapshots and
  then one invocation with null content.
\<close>

lemma output_of_snapshots:
  assumes "length ps = length invs"
    and "\<forall>i \<in> set invs. inv_content i \<noteq> None"
  shows "concat ps = printed_by_snapshots invs ps"
  using assms by (simp add: printed_by_snapshots_all)

lemma output_of_ended_stream:
  assumes len: "length ps = length invs"
    and shape: "invs = snaps @ [e]"
    and null: "inv_content e = None"
    and snaps: "\<forall>i \<in> set snaps. inv_content i \<noteq> None"
    and ends: "\<forall>k<length invs. inv_content (invs ! k) = None \<longrightarrow> ps ! k = end_format"
  shows "concat ps = printed_by_snapshots invs ps @ end_format"
proof -
  from len shape have "ps \<noteq> []" by auto
  then have ps: "ps = butlast ps @ [last ps]" by simp
  have lb: "length (butlast ps) = length snaps" using len shape by simp
  have "ps ! length snaps = end_format"
    using ends shape null by (simp add: nth_append)
  moreover have "ps ! length snaps = last ps"
    using lb ps by (metis nth_append_length)
  ultimately have last: "last ps = end_format" by simp
  have "printed_by_snapshots invs ps
      = printed_by_snapshots snaps (butlast ps) @ printed_by_snapshots [e] [last ps]"
    using printed_by_snapshots_append [OF lb, of "[e]" "[last ps]"] ps shape by simp
  also have "\<dots> = concat (butlast ps)"
    using null lb snaps by (simp add: printed_by_snapshots_all)
  finally have "printed_by_snapshots invs ps @ end_format = concat (butlast ps) @ last ps"
    using last by simp
  also have "\<dots> = concat ps"
    using ps by (metis append_Nil2 concat.simps(1,2) concat_append)
  finally show ?thesis by simp
qed

text \<open>
  C1 (as amended): for every sequence of invocations with status 0 in which each non-null
  snapshot has the previous non-null snapshot as a prefix and reports its own length,
  \<^verbatim>\<open>responseCallback\<close>, started by \<^verbatim>\<open>main\<close> with \<^verbatim>\<open>lastLength = 0\<close>, never reads out of bounds
  and prints once per invocation. A non-null invocation prints its snapshot from the
  previously observed length on (the length of the last non-null snapshot before it, 0 when
  there is none), and the cursor ends at the length of the last non-null snapshot; so what
  the non-null invocations print, concatenated, is exactly the last non-null snapshot
  (nothing when there is none). An invocation with null content prints the end marker, a
  newline, the check mark and a newline. Hence everything printed is exactly the last
  snapshot as long as no invocation had null content, and it is the last snapshot followed
  by the end marker for snapshots followed by the one null invocation that ends a stream.
\<close>

theorem stream_prints_final_snapshot:
  assumes "snapshots_ok [] invs"
  shows "\<exists>ctx ps. run_callbacks main_context invs = Inr (ctx, ps)
     \<and> length ps = length invs
     \<and> lastLength ctx = length (last_snapshot [] invs)
     \<and> printed_by_snapshots invs ps = last_snapshot [] invs
     \<and> (\<forall>k<length invs. \<forall>s. inv_content (invs ! k) = Some s \<longrightarrow>
           ps ! k = drop (length (last_snapshot [] (take k invs))) s)
     \<and> (\<forall>k<length invs. inv_content (invs ! k) = None \<longrightarrow> ps ! k = end_format)
     \<and> ((\<forall>i \<in> set invs. inv_content i \<noteq> None) \<longrightarrow> concat ps = last_snapshot [] invs)
     \<and> (\<forall>snaps e. invs = snaps @ [e] \<and> inv_content e = None
           \<and> (\<forall>i \<in> set snaps. inv_content i \<noteq> None) \<longrightarrow>
           concat ps = last_snapshot [] invs @ end_format)"
proof -
  have "lastLength main_context = length ([] :: string)"
    by (simp add: main_context_def)
  from run_snapshots [OF assms this] obtain ctx ps where
    run: "run_callbacks main_context invs = Inr (ctx, ps)" and
    len: "length ps = length invs" and
    cur: "lastLength ctx = length (last_snapshot [] invs)" and
    out: "printed_by_snapshots invs ps = last_snapshot [] invs" and
    each: "\<forall>k<length invs. \<forall>s. inv_content (invs ! k) = Some s \<longrightarrow>
           ps ! k = drop (length (last_snapshot [] (take k invs))) s" and
    ends: "\<forall>k<length invs. inv_content (invs ! k) = None \<longrightarrow> ps ! k = end_format"
    by auto
  have "concat ps = last_snapshot [] invs" if "\<forall>i \<in> set invs. inv_content i \<noteq> None"
    using output_of_snapshots [OF len that] out by simp
  moreover have "concat ps = last_snapshot [] invs @ end_format"
    if "invs = snaps @ [e]" "inv_content e = None" "\<forall>i \<in> set snaps. inv_content i \<noteq> None"
    for snaps e
    using output_of_ended_stream [OF len that ends] out by simp
  ultimately show ?thesis using run len cur out each ends by blast
qed

theorem stream_prints_final_snapshot_witness:
  "snapshots_ok []
     [\<lparr>inv_status = 0, inv_content = Some ''Hi'', inv_length = 2\<rparr>,
      \<lparr>inv_status = 0, inv_content = Some ''Hi there'', inv_length = 8\<rparr>,
      \<lparr>inv_status = 0, inv_content = None, inv_length = 0\<rparr>]
   \<and> (\<exists>ctx ps. run_callbacks main_context
         [\<lparr>inv_status = 0, inv_content = Some ''Hi'', inv_length = 2\<rparr>,
          \<lparr>inv_status = 0, inv_content = Some ''Hi there'', inv_length = 8\<rparr>,
          \<lparr>inv_status = 0, inv_content = None, inv_length = 0\<rparr>] = Inr (ctx, ps)
        \<and> lastLength ctx = 8
        \<and> printed_by_snapshots
         [\<lparr>inv_status = 0, inv_content = Some ''Hi'', inv_length = 2\<rparr>,
          \<lparr>inv_status = 0, inv_content = Some ''Hi there'', inv_length = 8\<rparr>,
          \<lparr>inv_status = 0, inv_content = None, inv_length = 0\<rparr>] ps = ''Hi there'')"
proof -
  let ?invs = "[\<lparr>inv_status = 0, inv_content = Some ''Hi'', inv_length = 2\<rparr>,
      \<lparr>inv_status = 0, inv_content = Some ''Hi there'', inv_length = 8\<rparr>,
      \<lparr>inv_status = 0, inv_content = None, inv_length = 0\<rparr>]"
  have ok: "snapshots_ok [] ?invs" by simp
  from stream_prints_final_snapshot [OF ok] obtain ctx ps where
    "run_callbacks main_context ?invs = Inr (ctx, ps)"
    "lastLength ctx = length (last_snapshot [] ?invs)"
    "printed_by_snapshots ?invs ps = last_snapshot [] ?invs"
    by blast
  then have "run_callbacks main_context ?invs = Inr (ctx, ps) \<and> lastLength ctx = 8
      \<and> printed_by_snapshots ?invs ps = ''Hi there''"
    by simp
  with ok show ?thesis by blast
qed

text \<open>
  The claim as it was stated, that everything printed is exactly the last non-null
  snapshot, fails on the shortest complete stream: one snapshot \<^verbatim>\<open>Hi\<close> and the null
  invocation that ends the stream. The output is \<^verbatim>\<open>Hi\<close> followed by the end marker.
\<close>

theorem stream_output_counterexample:
  "snapshots_ok []
     [\<lparr>inv_status = 0, inv_content = Some ''Hi'', inv_length = 2\<rparr>,
      \<lparr>inv_status = 0, inv_content = None, inv_length = 0\<rparr>]
   \<and> run_callbacks main_context
     [\<lparr>inv_status = 0, inv_content = Some ''Hi'', inv_length = 2\<rparr>,
      \<lparr>inv_status = 0, inv_content = None, inv_length = 0\<rparr>]
     = Inr (\<lparr>lastLength = 2, isResponding = False\<rparr>,
            [''Hi'', [CHR 0x0A, CHR 0xE2, CHR 0x9C, CHR 0x85, CHR 0x0A]])
   \<and> concat [''Hi'', [CHR 0x0A, CHR 0xE2, CHR 0x9C, CHR 0x85, CHR 0x0A]]
       \<noteq> last_snapshot []
         [\<lparr>inv_status = 0, inv_content = Some ''Hi'', inv_length = 2\<rparr>,
          \<lparr>inv_status = 0, inv_content = None, inv_length = 0\<rparr>]"
  by (simp add: main_context_def responseCallback_def c_string_at_def end_format_def)

subsection \<open>Reads of the content stay in bounds\<close>

lemma run_callbacks_append:
  "run_callbacks ctx (xs @ ys) =
     (case run_callbacks ctx xs of
        Inl e \<Rightarrow> Inl e
      | Inr (ctx', ps) \<Rightarrow>
          (case run_callbacks ctx' ys of
             Inl e \<Rightarrow> Inl e
           | Inr (ctx'', qs) \<Rightarrow> Inr (ctx'', ps @ qs)))"
  by (induction xs arbitrary: ctx) (auto split: sum.splits)

lemma responseCallback_in_bounds:
  assumes "responseCallback 0 (Some s) len ctx = Inr r"
  shows "lastLength ctx \<le> length s"
  using assms by (simp add: responseCallback_def c_string_at_def split: if_splits)

text \<open>
  From any cursor that is at most the reported length of every snapshot still to come, the
  run reads in bounds.
\<close>

lemma run_in_bounds:
  "sorted (map inv_length (filter is_snapshot invs)) \<Longrightarrow> lengths_reported invs \<Longrightarrow>
   \<forall>i \<in> set invs. is_snapshot i \<longrightarrow> lastLength ctx \<le> inv_length i \<Longrightarrow>
   \<exists>r. run_callbacks ctx invs = Inr r"
proof (induction invs arbitrary: ctx)
  case Nil
  then show ?case by simp
next
  case (Cons i rest)
  have rep: "lengths_reported rest"
    using Cons.prems(2) by (simp add: lengths_reported_def)
  have srt: "sorted (map inv_length (filter is_snapshot rest))"
    using Cons.prems(1) by (simp split: if_splits)
  show ?case
  proof (cases "is_snapshot i")
    case True
    then obtain s where s: "inv_content i = Some s" and st: "inv_status i = 0"
      by (auto simp: is_snapshot_def)
    have len: "inv_length i = length s"
      using Cons.prems(2) True s by (simp add: lengths_reported_def)
    have "lastLength ctx \<le> length s"
      using Cons.prems(3) True len by simp
    then have step: "responseCallback (inv_status i) (inv_content i) (inv_length i) ctx
        = Inr (ctx\<lparr>lastLength := inv_length i\<rparr>, drop (lastLength ctx) s)"
      using s st by (simp add: responseCallback_snapshot)
    have "\<forall>j \<in> set rest. is_snapshot j \<longrightarrow>
        lastLength (ctx\<lparr>lastLength := inv_length i\<rparr>) \<le> inv_length j"
      using Cons.prems(1) True by auto
    from Cons.IH [OF srt rep this] obtain r where
      "run_callbacks (ctx\<lparr>lastLength := inv_length i\<rparr>) rest = Inr r" by blast
    with step show ?thesis by (cases r) simp
  next
    case False
    then have step: "responseCallback (inv_status i) (inv_content i) (inv_length i) ctx
        = Inr (ctx\<lparr>isResponding := False\<rparr>,
               if inv_status i \<noteq> 0 then failure_format else end_format)"
      by (auto simp: is_snapshot_def responseCallback_def printf_failure_format
          printf_end_format)
    have "\<forall>j \<in> set rest. is_snapshot j \<longrightarrow>
        lastLength (ctx\<lparr>isResponding := False\<rparr>) \<le> inv_length j"
      using Cons.prems(3) by simp
    from Cons.IH [OF srt rep this] obtain r where
      "run_callbacks (ctx\<lparr>isResponding := False\<rparr>) rest = Inr r" by blast
    with step show ?thesis by (cases r) simp
  qed
qed

text \<open>
  C9: \<^verbatim>\<open>responseCallback\<close> never reads through a null content pointer. With a nonzero
  status its result is the same whatever the content and the length are, and with null
  content it returns without a read at all: neither can be an undefined read. For every
  sequence of invocations in which the reported lengths of the snapshots (status 0, non-null
  content) never decrease and each is the length of its snapshot, the run from \<^verbatim>\<open>main\<close>'s
  context has no undefined read, and at each snapshot the cursor \<^verbatim>\<open>lastLength\<close> from which
  the string is read is at most the snapshot's length.
\<close>

theorem responseCallback_reads_in_bounds:
  assumes "sorted (map inv_length (filter is_snapshot invs))"
    and "lengths_reported invs"
  shows "(\<exists>r. run_callbacks main_context invs = Inr r)
     \<and> (\<forall>k<length invs. \<exists>ctx ps.
           run_callbacks main_context (take k invs) = Inr (ctx, ps)
           \<and> (is_snapshot (invs ! k) \<longrightarrow>
                lastLength ctx \<le> length (the (inv_content (invs ! k)))))
     \<and> (\<forall>status content len ctx. status \<noteq> 0 \<longrightarrow>
           responseCallback status content len ctx = responseCallback status None 0 ctx)
     \<and> (\<forall>status len ctx. \<exists>r. responseCallback status None len ctx = Inr r)"
proof -
  have "\<forall>i \<in> set invs. is_snapshot i \<longrightarrow> lastLength main_context \<le> inv_length i"
    by (simp add: main_context_def)
  from run_in_bounds [OF assms this] obtain r where
    whole: "run_callbacks main_context invs = Inr r" by blast
  have steps: "\<exists>ctx ps. run_callbacks main_context (take k invs) = Inr (ctx, ps)
      \<and> (is_snapshot (invs ! k) \<longrightarrow> lastLength ctx \<le> length (the (inv_content (invs ! k))))"
    if k: "k < length invs" for k
  proof -
    have "invs = take k invs @ invs ! k # drop (Suc k) invs"
      using k by (rule id_take_nth_drop)
    then have "run_callbacks main_context (take k invs @ invs ! k # drop (Suc k) invs) = Inr r"
      using whole by simp
    then obtain ctx ps r' where
      before: "run_callbacks main_context (take k invs) = Inr (ctx, ps)" and
      here: "responseCallback (inv_status (invs ! k)) (inv_content (invs ! k))
               (inv_length (invs ! k)) ctx = Inr r'"
      by (auto simp: run_callbacks_append split: sum.splits)
    have "lastLength ctx \<le> length (the (inv_content (invs ! k)))" if "is_snapshot (invs ! k)"
      using that here responseCallback_in_bounds [of "the (inv_content (invs ! k))"]
      by (auto simp: is_snapshot_def)
    with before show ?thesis by blast
  qed
  have "responseCallback status content len ctx = responseCallback status None 0 ctx"
    if "status \<noteq> 0" for status content len ctx
    using that by (simp add: responseCallback_def)
  moreover have "\<exists>r. responseCallback status None len ctx = Inr r" for status len ctx
    by (simp add: responseCallback_def)
  ultimately show ?thesis using whole steps by blast
qed

theorem responseCallback_reads_in_bounds_witness:
  "sorted (map inv_length (filter is_snapshot
      [\<lparr>inv_status = 0, inv_content = Some ''ab'', inv_length = 2\<rparr>,
       \<lparr>inv_status = 0, inv_content = Some ''xyz'', inv_length = 3\<rparr>,
       \<lparr>inv_status = 5, inv_content = None, inv_length = 0\<rparr>]))
   \<and> lengths_reported
      [\<lparr>inv_status = 0, inv_content = Some ''ab'', inv_length = 2\<rparr>,
       \<lparr>inv_status = 0, inv_content = Some ''xyz'', inv_length = 3\<rparr>,
       \<lparr>inv_status = 5, inv_content = None, inv_length = 0\<rparr>]
   \<and> (\<exists>r. run_callbacks main_context
      [\<lparr>inv_status = 0, inv_content = Some ''ab'', inv_length = 2\<rparr>,
       \<lparr>inv_status = 0, inv_content = Some ''xyz'', inv_length = 3\<rparr>,
       \<lparr>inv_status = 5, inv_content = None, inv_length = 0\<rparr>] = Inr r)"
proof -
  let ?invs = "[\<lparr>inv_status = 0, inv_content = Some ''ab'', inv_length = 2\<rparr>,
       \<lparr>inv_status = 0, inv_content = Some ''xyz'', inv_length = 3\<rparr>,
       \<lparr>inv_status = 5, inv_content = None, inv_length = 0\<rparr>]"
  have a: "sorted (map inv_length (filter is_snapshot ?invs))"
    by (simp add: is_snapshot_def)
  have b: "lengths_reported ?invs"
    by (simp add: lengths_reported_def is_snapshot_def)
  from responseCallback_reads_in_bounds [OF a b]
  have "\<exists>r. run_callbacks main_context ?invs = Inr r" by blast
  with a b show ?thesis by blast
qed

subsection \<open>The flag \<^verbatim>\<open>isResponding\<close>\<close>

text \<open>
  What the callback does to the flag that \<^verbatim>\<open>main\<close> waits on: after a call the flag is set
  if and only if it was set before and the invocation was not terminal. Whether and when
  the loop of \<^verbatim>\<open>main\<close> reads that write is not a matter of the callback.
\<close>

lemma responseCallback_flag:
  assumes "responseCallback status content len ctx = Inr (ctx', p)"
  shows "isResponding ctx' = (isResponding ctx \<and> status = 0 \<and> content \<noteq> None)"
  using assms
  by (auto simp: responseCallback_def c_string_at_def split: if_splits option.splits)

lemma run_callbacks_flag:
  "run_callbacks ctx invs = Inr (ctx', ps) \<Longrightarrow>
   isResponding ctx' = (isResponding ctx \<and> (\<forall>i \<in> set invs. \<not> is_terminal i))"
proof (induction invs arbitrary: ctx ctx' ps)
  case Nil
  then show ?case by simp
next
  case (Cons i rest)
  from Cons.prems obtain c p qs where
    step: "responseCallback (inv_status i) (inv_content i) (inv_length i) ctx = Inr (c, p)" and
    tail: "run_callbacks c rest = Inr (ctx', qs)"
    by (auto split: sum.splits)
  from responseCallback_flag [OF step]
  have "isResponding c = (isResponding ctx \<and> \<not> is_terminal i)"
    by (simp add: is_terminal_def)
  with Cons.IH [OF tail] show ?case by auto
qed

section \<open>Properties of the interface and the engine\<close>

subsection \<open>Which guide operations take a wrapped flag\<close>

text \<open>
  C7 (as amended): of the eight kinds of validation guide, the operations for six take a
  \<^verbatim>\<open>bool wrapped\<close> parameter: choice-enumeration, exact-count, maximum, minimum, range and
  regex-pattern. The operations for min-items and max-items take the property and the
  bound only, so a guide of these two kinds cannot be marked wrapped.
\<close>

theorem wrapped_flag_of_guides:
  "accepts_wrapped k = (k \<noteq> MinItems \<and> k \<noteq> MaxItems)"
  by (cases k) (simp_all add: accepts_wrapped_def)

text \<open>
  The claim as it was stated, that every guide operation accepts a wrapped flag, fails for
  \<^verbatim>\<open>FMGenerationSchemaPropertyAddMinItemsGuide(property, minItems)\<close>.
\<close>

theorem wrapped_flag_counterexample:
  "guide_declaration MinItems =
     (''FMGenerationSchemaPropertyAddMinItemsGuide'',
      [(FMGenerationSchemaPropertyRef, ''property''), (CInt, ''minItems'')])
   \<and> \<not> accepts_wrapped MinItems"
  by (simp add: accepts_wrapped_def)

subsection \<open>The availability query\<close>

text \<open>
  C8: \<^verbatim>\<open>FMSystemLanguageModelIsAvailable\<close> returns its answer directly and leaves the model as
  it was. The answer is true exactly when the model is available. The out-parameter is
  either left as it was or, when the model is unavailable and the pointer is not null, set
  to the value of the model's reason: one of 0, 1, 2 and 0xFF, the values of the four
  enumerators. The call has no other result, so unavailability is reported in no other way.
\<close>

theorem availability_reason_codes:
  "\<exists>result out'.
     FMSystemLanguageModelIsAvailable model out = (result, out', model)
     \<and> (result \<longleftrightarrow> model = Available)
     \<and> (out' = None \<longleftrightarrow> out = None)
     \<and> (out' = out \<or> (\<not> result \<and> out' \<in> {Some 0, Some 1, Some 2, Some 0xFF}))
     \<and> (\<forall>r v. model = Unavailable r \<and> out = Some v \<longrightarrow> out' = Some (reason_value r))"
proof (cases model)
  case Available
  then show ?thesis by (auto simp: FMSystemLanguageModelIsAvailable_def)
next
  case (Unavailable r)
  have "reason_value r \<in> {0, 1, 2, 0xFF}" by (cases r) simp_all
  with Unavailable show ?thesis
    by (cases out) (auto simp: FMSystemLanguageModelIsAvailable_def)
qed

theorem availability_reason_codes_witness:
  "FMSystemLanguageModelIsAvailable (Unavailable ModelNotReady) (Some (reason_value Unknown))
     = (False, Some 2, Unavailable ModelNotReady)"
  using availability_reason_codes [of "Unavailable ModelNotReady" "Some (reason_value Unknown)"]
  by auto

subsection \<open>Retain and release\<close>

lemma retain_many:
  "(FMRetain ^^ n) obj = obj\<lparr>ownership_count := ownership_count obj + int n\<rparr>"
  by (induction n) (simp_all add: FMRetain_def)

lemma release_many:
  "ownership_count ((FMRelease ^^ k) obj) = ownership_count obj - int k
   \<and> teardowns ((FMRelease ^^ k) obj) =
       teardowns obj + (if 0 < ownership_count obj \<and> ownership_count obj \<le> int k then 1 else 0)"
  by (induction k) (auto simp: FMRelease_def Let_def)

text \<open>
  C5: a reference is handed out with an ownership count of one. After \<open>n\<close> calls of
  \<^verbatim>\<open>FMRetain\<close> and then \<open>k\<close> calls of \<^verbatim>\<open>FMRelease\<close>, the count is \<open>1 + n - k\<close> and the object
  has been torn down not at all while \<open>k \<le> n\<close>, and exactly once from \<open>k = n + 1\<close> on: the
  release number \<open>n + 1\<close> triggers the teardown, and release number \<open>n + 2\<close>, like every
  later one, does not trigger a second.
\<close>

theorem release_after_retains:
  "ownership_count ((FMRelease ^^ k) ((FMRetain ^^ n) new_reference)) = 1 + int n - int k
   \<and> teardowns ((FMRelease ^^ k) ((FMRetain ^^ n) new_reference)) = (if k \<le> n then 0 else 1)"
proof -
  let ?obj = "(FMRetain ^^ n) new_reference"
  have c: "ownership_count ?obj = 1 + int n" and t: "teardowns ?obj = 0"
    by (simp_all add: retain_many new_reference_def)
  from release_many [of k ?obj] c t show ?thesis by auto
qed

subsection \<open>Tasks: one callback, idempotent cancellation\<close>

lemma task_run_Cons [simp]:
  "task_run p t (ev # evs) = task_run p (task_step p t ev) evs"
  by (simp add: task_run_def)

lemma task_run_Nil [simp]: "task_run p t [] = t"
  by (simp add: task_run_def)

lemma task_step_ended:
  "phase t \<noteq> Running \<Longrightarrow> task_step p t ev = t"
  by (cases ev; cases "phase t") (simp_all add: engine_done_def FMTaskCancel_def)

lemma task_run_ended:
  "phase t \<noteq> Running \<Longrightarrow> task_run p t evs = t"
  by (induction evs) (simp_all add: task_step_ended)

lemma task_step_ends:
  "phase (task_step p t ev) \<noteq> Running"
  by (cases ev; cases "phase t") (simp_all add: engine_done_def FMTaskCancel_def)

lemma task_step_fired:
  "phase t = Running \<Longrightarrow> fired t = [] \<Longrightarrow> length (fired (task_step p t ev)) \<le> 1"
  by (cases ev; cases p) (simp_all add: engine_done_def FMTaskCancel_def)

lemma task_run_fired:
  "length (fired (task_run p (FMLanguageModelSessionRespond prompt) evs)) \<le> 1"
proof (cases evs)
  case Nil
  then show ?thesis by (simp add: FMLanguageModelSessionRespond_def)
next
  case (Cons ev rest)
  let ?t = "task_step p (FMLanguageModelSessionRespond prompt) ev"
  have "task_run p ?t rest = ?t"
    by (rule task_run_ended) (rule task_step_ends)
  moreover have "length (fired ?t) \<le> 1"
    by (rule task_step_fired) (simp_all add: FMLanguageModelSessionRespond_def)
  ultimately show ?thesis using Cons by simp
qed

text \<open>
  C6: calling \<^verbatim>\<open>FMTaskCancel\<close> on a task twice leaves the task, with the callbacks made for
  it, exactly as calling it once does. On a task that is already completed or already
  cancelled the call changes nothing; it has no error to return. Whatever sequence of
  completions and cancellations a task started by \<^verbatim>\<open>FMLanguageModelSessionRespond\<close> goes
  through, at most one callback invocation is made for it. All of this holds whether a
  cancellation notifies the callback or not.
\<close>

theorem cancel_idempotent:
  "FMTaskCancel on_cancel (FMTaskCancel on_cancel t) = FMTaskCancel on_cancel t
   \<and> (phase t \<noteq> Running \<longrightarrow> FMTaskCancel on_cancel t = t)
   \<and> length (fired (task_run on_cancel (FMLanguageModelSessionRespond prompt) evs)) \<le> 1"
proof -
  have "phase (FMTaskCancel on_cancel t) \<noteq> Running"
    using task_step_ends [of on_cancel t CancelRequested] by simp
  then have "FMTaskCancel on_cancel (FMTaskCancel on_cancel t) = FMTaskCancel on_cancel t"
    using task_step_ended [of "FMTaskCancel on_cancel t" on_cancel CancelRequested] by simp
  moreover have "FMTaskCancel on_cancel t = t" if "phase t \<noteq> Running"
    using task_step_ended [OF that, of on_cancel CancelRequested] by simp
  ultimately show ?thesis using task_run_fired by blast
qed

theorem cancel_idempotent_witness:
  "phase (engine_done (Succeeded ''ok'') (FMLanguageModelSessionRespond ''hello'')) \<noteq> Running
   \<and> FMTaskCancel (Some 9) (engine_done (Succeeded ''ok'') (FMLanguageModelSessionRespond ''hello''))
       = \<lparr>phase = Completed,
          fired = [\<lparr>inv_status = 0, inv_content = Some ''ok'', inv_length = 2\<rparr>]\<rparr>"
proof -
  let ?t = "engine_done (Succeeded ''ok'') (FMLanguageModelSessionRespond ''hello'')"
  have completed: "?t = \<lparr>phase = Completed,
      fired = [\<lparr>inv_status = 0, inv_content = Some ''ok'', inv_length = 2\<rparr>]\<rparr>"
    by (simp add: engine_done_def FMLanguageModelSessionRespond_def)
  then have ended: "phase ?t \<noteq> Running" by simp
  with cancel_idempotent [of "Some 9" ?t] have "FMTaskCancel (Some 9) ?t = ?t" by blast
  with completed ended show ?thesis by simp
qed





subsection \<open>Streams: growing snapshots and one end\<close>

lemma contents_grow:
  "sorted_wrt strict_prefix (contents (stream_deliver acc evs))
   \<and> (\<forall>s \<in> set (contents (stream_deliver acc evs)). strict_prefix acc s)"
proof (induction acc evs rule: stream_deliver.induct)
  case (2 acc d evs)
  show ?case
  proof (cases "d = []")
    case True
    with 2 show ?thesis by simp
  next
    case False
    then have step: "strict_prefix acc (acc @ d)"
      by (simp add: strict_prefix_def)
    from 2(2) [OF False] have
      ih1: "sorted_wrt strict_prefix (contents (stream_deliver (acc @ d) evs))" and
      ih2: "\<forall>s \<in> set (contents (stream_deliver (acc @ d) evs)). strict_prefix (acc @ d) s"
      by simp_all
    from ih2 step have "\<forall>s \<in> set (contents (stream_deliver (acc @ d) evs)). strict_prefix acc s"
      by (auto simp: strict_prefix_def prefix_def)
    with ih1 ih2 step False show ?thesis by simp
  qed
qed simp_all

lemma terminal_is_last:
  "k < length (stream_deliver acc evs) \<Longrightarrow> is_terminal (stream_deliver acc evs ! k) \<Longrightarrow>
   Suc k = length (stream_deliver acc evs)"
proof (induction acc evs arbitrary: k rule: stream_deliver.induct)
  case (2 acc d evs)
  show ?case
  proof (cases "d = []")
    case True
    with 2 show ?thesis by simp
  next
    case False
    show ?thesis
    proof (cases k)
      case 0
      with 2(4) False show ?thesis by (simp add: is_terminal_def)
    next
      case (Suc j)
      with 2(3,4) False have "j < length (stream_deliver (acc @ d) evs)"
        and "is_terminal (stream_deliver (acc @ d) evs ! j)" by simp_all
      from 2(2) [OF False this] Suc False show ?thesis by simp
    qed
  qed
qed simp_all

lemma null_content_once:
  "length (filter (\<lambda>i. inv_content i = None) (stream_deliver acc evs))
     = (if \<exists>e \<in> set evs. ends_stream e then 1 else 0)"
  by (induction acc evs rule: stream_deliver.induct) (auto split: if_splits)

lemma snapshot_invocations:
  "i \<in> set (stream_deliver acc evs) \<Longrightarrow> inv_content i \<noteq> None \<Longrightarrow>
   inv_status i = 0 \<and> inv_length i = length (the (inv_content i))"
  by (induction acc evs rule: stream_deliver.induct) (auto split: if_splits)

text \<open>
  C2: for every streaming request, whatever the engine does, the invocations with non-null
  content carry status 0 and the length of their content; each of these snapshots is a
  strict prefix of the next, so their lengths never decrease. An invocation that is
  terminal (null content, or nonzero status) is the last one made: the callback does not
  fire after it, and in particular no null-content invocation follows a failure. The number
  of invocations with null content is exactly one once the engine has completed or failed
  the stream, and zero before.
\<close>

theorem stream_protocol:
  "successively strict_prefix (contents (FMLanguageModelSessionResponseStreamIterate evs))
   \<and> sorted (map length (contents (FMLanguageModelSessionResponseStreamIterate evs)))
   \<and> (\<forall>i \<in> set (FMLanguageModelSessionResponseStreamIterate evs). inv_content i \<noteq> None \<longrightarrow>
         inv_status i = 0 \<and> inv_length i = length (the (inv_content i)))
   \<and> (\<forall>k < length (FMLanguageModelSessionResponseStreamIterate evs).
         is_terminal (FMLanguageModelSessionResponseStreamIterate evs ! k) \<longrightarrow>
         Suc k = length (FMLanguageModelSessionResponseStreamIterate evs))
   \<and> length (filter (\<lambda>i. inv_content i = None) (FMLanguageModelSessionResponseStreamIterate evs))
       = (if \<exists>e \<in> set evs. ends_stream e then 1 else 0)"
proof -
  let ?t = "stream_deliver [] evs"
  have chain: "sorted_wrt strict_prefix (contents ?t)"
    using contents_grow [of "[]" evs] by simp
  then have "successively strict_prefix (contents ?t)"
    by (rule successively_if_sorted_wrt)
  moreover have "sorted (map length (contents ?t))"
  proof -
    have "sorted_wrt (\<lambda>a b. length a \<le> length b) (contents ?t)"
      using chain by (rule sorted_wrt_mono_rel [rotated]) (simp add: prefix_length_less less_imp_le)
    then show ?thesis by (simp add: sorted_map)
  qed
  moreover have "\<forall>i \<in> set ?t. inv_content i \<noteq> None \<longrightarrow>
      inv_status i = 0 \<and> inv_length i = length (the (inv_content i))"
    using snapshot_invocations by blast
  moreover have "\<forall>k < length ?t. is_terminal (?t ! k) \<longrightarrow> Suc k = length ?t"
    using terminal_is_last by blast
  ultimately show ?thesis
    unfolding FMLanguageModelSessionResponseStreamIterate_def
    using null_content_once [of "[]" evs] by simp
qed

theorem stream_protocol_witness:
  "FMLanguageModelSessionResponseStreamIterate
     [Grew ''Hi'', Grew [], Grew '' there'', Finished, Grew ''!'', Failed 4]
   = [\<lparr>inv_status = 0, inv_content = Some ''Hi'', inv_length = 2\<rparr>,
      \<lparr>inv_status = 0, inv_content = Some ''Hi there'', inv_length = 8\<rparr>,
      \<lparr>inv_status = 0, inv_content = None, inv_length = 0\<rparr>]
   \<and> successively strict_prefix (contents (FMLanguageModelSessionResponseStreamIterate
       [Grew ''Hi'', Grew [], Grew '' there'', Finished, Grew ''!'', Failed 4]))
   \<and> length (filter (\<lambda>i. inv_content i = None) (FMLanguageModelSessionResponseStreamIterate
       [Grew ''Hi'', Grew [], Grew '' there'', Finished, Grew ''!'', Failed 4])) = 1"
  using stream_protocol [of "[Grew ''Hi'', Grew [], Grew '' there'', Finished, Grew ''!'', Failed 4]"]
  by (simp add: FMLanguageModelSessionResponseStreamIterate_def)

end
